theory Spec2Isabelle
  imports Main "HOL-Library.Multiset"
begin

section \<open>The codemap indexer: \<open>analyze_folder_callsites.py\<close>\<close>

text \<open>
  The indexer walks a directory, parses every \<open>.c\<close>/\<open>.h\<close> file with tree-sitter and
  builds four maps (definitions, outgoing calls, outgoing call sites, incoming call
  sites), run statistics and a list of per-file errors.

  Python \<open>bytes\<close> and \<open>str\<close> are both modelled as \<open>string\<close>. The collaborators that are
  not code of the indexer are inputs of the model: the directory tree as \<open>os.walk\<close> sees
  it, \<open>Path.read_bytes\<close>, \<open>Parser.parse\<close>, \<open>bytes.decode\<close> and \<open>Path.resolve\<close>.
\<close>

subsection \<open>Syntax trees (the part of the tree-sitter \<open>Node\<close> interface that is used)\<close>

text \<open>
  A node has a type tag, a byte span, a start and an end point (row, column; 0-based) and
  its children in order, each with the field name under which the parent holds it, if any.
\<close>

datatype node =
  Node (ntype: string) (start_byte: nat) (end_byte: nat)
       (start_point: "nat \<times> nat") (end_point: "nat \<times> nat")
       (fields: "(string option \<times> node) list")

definition children :: "node \<Rightarrow> node list" where
  "children n = map snd (fields n)"

text \<open>\<open>child_by_field_name\<close>: the first child held under the field, or \<open>None\<close>.\<close>

definition child_by_field_name :: "node \<Rightarrow> string \<Rightarrow> node option" where
  "child_by_field_name n name =
     map_option snd (List.find (\<lambda>c. fst c = Some name) (fields n))"

text \<open>\<open>walk\<close>: the generator yields the node, then the walk of each child (pre-order).\<close>

fun walk :: "node \<Rightarrow> node list" where
  "walk (Node ty sb eb sp ep cs) =
     Node ty sb eb sp ep cs # concat (map (\<lambda>c. walk (snd c)) cs)"

text \<open>Python's slice \<open>code[a:b]\<close> for non-negative \<open>a\<close> and \<open>b\<close>: it clamps, never raises.\<close>

definition slice :: "'a list \<Rightarrow> nat \<Rightarrow> nat \<Rightarrow> 'a list" where
  "slice xs a b = take (b - a) (drop a xs)"

text \<open>
  \<open>code[n.start_byte:n.end_byte].decode("utf-8", errors="replace")\<close>, the decoder being
  a parameter.
\<close>

definition node_text :: "(string \<Rightarrow> string) \<Rightarrow> node \<Rightarrow> string \<Rightarrow> string" where
  "node_text dec n code = dec (slice code (start_byte n) (end_byte n))"

definition find_identifier_in_subtree ::
  "(string \<Rightarrow> string) \<Rightarrow> node \<Rightarrow> string \<Rightarrow> string option" where
  "find_identifier_in_subtree dec nd code =
     (case List.find (\<lambda>n. ntype n = ''identifier'') (walk nd) of
        Some n \<Rightarrow> Some (node_text dec n code)
      | None \<Rightarrow> None)"

text \<open>
  \<open>get_function_name\<close>: \<open>name or "<unknown>"\<close> yields the sentinel for \<open>None\<close> and for the
  empty string alike.
\<close>

definition get_function_name :: "(string \<Rightarrow> string) \<Rightarrow> node \<Rightarrow> string \<Rightarrow> string" where
  "get_function_name dec fn_node code =
     (case child_by_field_name fn_node ''declarator'' of
        None \<Rightarrow> ''<unknown>''
      | Some decl \<Rightarrow>
          (case find_identifier_in_subtree dec decl code of
             None \<Rightarrow> ''<unknown>''
           | Some name \<Rightarrow> if name = [] then ''<unknown>'' else name))"

subsection \<open>Source enumeration\<close>

text \<open>
  A path is the list of its parts; \<open>Path(dirpath) / fn\<close> appends one part. \<open>str_path\<close>
  renders it as \<open>str\<close> does on POSIX.
\<close>

type_synonym path = "string list"

fun str_path :: "path \<Rightarrow> string" where
  "str_path [] = ''.''"
| "str_path [p] = p"
| "str_path (p # q # ps) =
     (if p = ''/'' then p @ str_path (q # ps) else p @ ''/'' @ str_path (q # ps))"

text \<open>
  A directory as \<open>os.walk\<close> reports it: its sub-directories (name and contents) and the
  names of its other entries, each in listing order. A directory that \<open>os.walk\<close> lists
  but does not enter (a symbolic link, an unreadable directory) has no contents here.
\<close>

datatype dirtree = Dir (subdirs: "(string \<times> dirtree) list") (filenames: "string list")

definition startswith :: "string \<Rightarrow> string \<Rightarrow> bool" where
  "startswith s pre = (take (length pre) s = pre)"

definition endswith :: "string \<Rightarrow> string \<Rightarrow> bool" where
  "endswith s suf = (length suf \<le> length s \<and> drop (length s - length suf) s = suf)"

definition ignore_dirs :: "string list" where
  "ignore_dirs =
     [''.git'', ''.svn'', ''.hg'',
      ''build'', ''cmake-build-debug'', ''cmake-build-release'',
      ''.vscode'', ''.idea'',
      ''venv'', ''.venv'', ''__pycache__'',
      ''node_modules'']"

text \<open>The test of \<open>dirnames[:] = [d for d in dirnames if ...]\<close>.\<close>

definition keep_dir :: "string \<Rightarrow> bool" where
  "keep_dir d = (d \<notin> set ignore_dirs \<and> \<not> startswith d ''.'')"

text \<open>\<open>fn.endswith((".c", ".h"))\<close>\<close>

definition is_source :: "string \<Rightarrow> bool" where
  "is_source fn = (endswith fn ''.c'' \<or> endswith fn ''.h'')"

text \<open>
  \<open>iter_source_files\<close>: top-down, \<open>os.walk\<close> reports a directory (its matching files are
  yielded), then walks the sub-directories left in \<open>dirnames\<close>, in order.
\<close>

fun iter_source_files :: "path \<Rightarrow> dirtree \<Rightarrow> path list" where
  "iter_source_files dirpath (Dir dirs files) =
     map (\<lambda>fn. dirpath @ [fn]) (filter is_source files) @
     concat (map (\<lambda>d. iter_source_files (dirpath @ [fst d]) (snd d))
                 (filter (\<lambda>d. keep_dir (fst d)) dirs))"

subsection \<open>The accumulators\<close>

text \<open>
  A Python \<open>dict\<close> keeps its keys in insertion order, and the order is observable (the
  inversion iterates \<open>call_sites.items()\<close>), so a \<open>defaultdict(list)\<close> is an association
  list. \<open>append_to k v d\<close> is \<open>d[k].append(v)\<close>: a missing key is created at the end with
  the one-element list.
\<close>

type_synonym 'v multidict = "(string \<times> 'v list) list"

fun append_to :: "string \<Rightarrow> 'v \<Rightarrow> 'v multidict \<Rightarrow> 'v multidict" where
  "append_to k v [] = [(k, [v])]"
| "append_to k v ((k', vs) # d) =
     (if k' = k then (k', vs @ [v]) # d else (k', vs) # append_to k v d)"

text \<open>The entries of the document; the field prefixes tell the JSON objects apart. The
  accumulator \<open>functions\<close> of the source is \<open>functions_map\<close>.\<close>

record func_def =
  fd_file :: string
  start_line :: nat
  end_line :: nat

record call_site =
  callee :: string
  cs_file :: string
  cs_line :: nat
  cs_col :: nat

record caller_site =
  caller :: string
  cb_file :: string
  cb_line :: nat
  cb_col :: nat

record file_error =
  fe_file :: string
  fe_error :: string

record index_state =
  functions_map :: "func_def multidict"
  calls_map :: "string multidict"
  call_sites :: "call_site multidict"
  file_errors :: "file_error list"

definition empty_state :: index_state where
  "empty_state = \<lparr>functions_map = [], calls_map = [], call_sites = [], file_errors = []\<rparr>"

text \<open>
  What the run is given: reading and parsing return \<open>Inl\<close> of the exception's message
  when they raise, \<open>Inr\<close> of the bytes or of the root node otherwise.
\<close>

record env =
  read_bytes :: "path \<Rightarrow> string + string"
  parse :: "string \<Rightarrow> string + node"
  decode :: "string \<Rightarrow> string"

subsection \<open>\<open>analyze_folder\<close>\<close>

definition def_entry :: "path \<Rightarrow> node \<Rightarrow> func_def" where
  "def_entry p n =
     \<lparr>fd_file = str_path p,
      start_line = fst (start_point n) + 1,
      end_line = fst (end_point n) + 1\<rparr>"

definition site_entry :: "(string \<Rightarrow> string) \<Rightarrow> path \<Rightarrow> string \<Rightarrow> node \<Rightarrow> call_site" where
  "site_entry dec p code fn =
     \<lparr>callee = node_text dec fn code,
      cs_file = str_path p,
      cs_line = fst (start_point fn) + 1,
      cs_col = snd (start_point fn) + 1\<rparr>"

text \<open>The body of the inner loop \<open>for sub in walk(n)\<close>.\<close>

definition scan_call ::
  "env \<Rightarrow> path \<Rightarrow> string \<Rightarrow> string \<Rightarrow> index_state \<Rightarrow> node \<Rightarrow> index_state" where
  "scan_call E p code fn_name st sub =
     (if ntype sub = ''call_expression'' then
        (case child_by_field_name sub ''function'' of
           None \<Rightarrow> st
         | Some fn \<Rightarrow>
             st\<lparr>calls_map := append_to fn_name (node_text (decode E) fn code) (calls_map st),
                call_sites := append_to fn_name (site_entry (decode E) p code fn) (call_sites st)\<rparr>)
      else st)"

text \<open>The body of the loop \<open>for n in walk(root)\<close>.\<close>

definition scan_node :: "env \<Rightarrow> path \<Rightarrow> string \<Rightarrow> index_state \<Rightarrow> node \<Rightarrow> index_state" where
  "scan_node E p code st n =
     (if ntype n \<noteq> ''function_definition'' then st
      else
        let fn_name = get_function_name (decode E) n code in
        if fn_name = ''<unknown>'' then st
        else
          foldl (scan_call E p code fn_name)
            (st\<lparr>functions_map := append_to fn_name (def_entry p n) (functions_map st)\<rparr>)
            (walk n))"

text \<open>The body of the loop \<open>for path in iter_source_files(folder)\<close>.\<close>

definition process_file :: "env \<Rightarrow> index_state \<Rightarrow> path \<Rightarrow> index_state" where
  "process_file E st p =
     (case read_bytes E p of
        Inl e \<Rightarrow>
          st\<lparr>file_errors := file_errors st @
               [\<lparr>fe_file = str_path p, fe_error = ''read failed: '' @ e\<rparr>]\<rparr>
      | Inr code \<Rightarrow>
          (case parse E code of
             Inl e \<Rightarrow>
               st\<lparr>file_errors := file_errors st @
                    [\<lparr>fe_file = str_path p, fe_error = ''parse failed: '' @ e\<rparr>]\<rparr>
           | Inr root \<Rightarrow> foldl (scan_node E p code) st (walk root)))"

text \<open>The inversion: \<open>for caller, sites in call_sites.items(): for s in sites: ...\<close>\<close>

definition invert_site :: "string \<Rightarrow> caller_site multidict \<Rightarrow> call_site \<Rightarrow> caller_site multidict" where
  "invert_site c cb s =
     append_to (callee s)
       \<lparr>caller = c, cb_file = cs_file s, cb_line = cs_line s, cb_col = cs_col s\<rparr> cb"

definition invert_sites :: "call_site multidict \<Rightarrow> caller_site multidict" where
  "invert_sites cs = foldl (\<lambda>cb (c, sites). foldl (invert_site c) cb sites) [] cs"

record stats =
  num_functions :: nat
  num_unique_function_names :: nat
  num_callers :: nat
  num_call_sites :: nat
  num_files_with_errors :: nat

record document =
  doc_root :: string
  doc_functions :: "func_def multidict"
  doc_calls :: "string multidict"
  doc_call_sites :: "call_site multidict"
  doc_called_by_sites :: "caller_site multidict"
  doc_stats :: stats
  doc_errors :: "file_error list"

text \<open>\<open>sum(len(v) for v in d.values())\<close>\<close>

definition total_len :: "'v multidict \<Rightarrow> nat" where
  "total_len d = sum_list (map (\<lambda>kv. length (snd kv)) d)"

definition build_result :: "path \<Rightarrow> index_state \<Rightarrow> document" where
  "build_result folder st =
     \<lparr>doc_root = str_path folder,
      doc_functions = functions_map st,
      doc_calls = calls_map st,
      doc_call_sites = call_sites st,
      doc_called_by_sites = invert_sites (call_sites st),
      doc_stats =
        \<lparr>num_functions = total_len (functions_map st),
         num_unique_function_names = length (functions_map st),
         num_callers = length (calls_map st),
         num_call_sites = total_len (call_sites st),
         num_files_with_errors = length (file_errors st)\<rparr>,
      doc_errors = file_errors st\<rparr>"

text \<open>The main loop over a list of paths, from a given state.\<close>

definition index_files :: "env \<Rightarrow> index_state \<Rightarrow> path list \<Rightarrow> index_state" where
  "index_files E st ps = foldl (process_file E) st ps"

definition analyze_folder :: "env \<Rightarrow> path \<Rightarrow> dirtree \<Rightarrow> document" where
  "analyze_folder E folder tree =
     build_result folder (index_files E empty_state (iter_source_files folder tree))"

subsection \<open>The interpreter's recursion limit\<close>










subsection \<open>\<open>main\<close>\<close>

text \<open>
  What \<open>main\<close> sees of the operating system: \<open>Path.resolve\<close>, what lies at a path
  (nothing, something that is not a directory, or a directory), \<open>json.dumps\<close> and
  whether \<open>write_text\<close> succeeds at a path. The outcome is the exit status of the process
  and the documents written; a \<open>SystemExit\<close> with a message and an uncaught exception both
  end the process with status 1. Console output is left out.
\<close>

datatype fs_entry = Missing | NotADirectory | Directory dirtree

record os =
  resolve :: "string \<Rightarrow> path"
  lookup_path :: "path \<Rightarrow> fs_entry"
  dumps :: "document \<Rightarrow> string"
  can_write :: "path \<Rightarrow> bool"

record outcome =
  exit_status :: nat
  written :: "(path \<times> string) list"

definition main :: "os \<Rightarrow> env \<Rightarrow> string list \<Rightarrow> outcome" where
  "main W E argv =
     (if length argv < 2 then \<lparr>exit_status = 1, written = []\<rparr>
      else
        let folder = resolve W (argv ! 1) in
        (case lookup_path W folder of
           Directory tree \<Rightarrow>
             let out_path =
                   (if length argv \<ge> 3 then resolve W (argv ! 2)
                    else folder @ [''_callgraph_callsites.json'']);
                 result = analyze_folder E folder tree
             in if can_write W out_path
                then \<lparr>exit_status = 0, written = [(out_path, dumps W result)]\<rparr>
                else \<lparr>exit_status = 1, written = []\<rparr>
         | _ \<Rightarrow> \<lparr>exit_status = 1, written = []\<rparr>))"

section \<open>Views of the data used in the statements\<close>

text \<open>
  None of the definitions below is part of the program. They describe, independently of
  the accumulating loops, what a run is expected to collect, and give the reading of a
  multi-valued dictionary that the consumers use.
\<close>

subsection \<open>Dictionaries\<close>

text \<open>\<open>d.get(k, [])\<close>: the list stored under a key, empty when the key is absent.\<close>

definition entries :: "'v multidict \<Rightarrow> string \<Rightarrow> 'v list" where
  "entries d k = (case map_of d k of None \<Rightarrow> [] | Some vs \<Rightarrow> vs)"

text \<open>A sequence of \<open>d[k].append(v)\<close>, one per pair, in order.\<close>

definition extend :: "'v multidict \<Rightarrow> (string \<times> 'v) list \<Rightarrow> 'v multidict" where
  "extend d kvs = foldl (\<lambda>d kv. append_to (fst kv) (snd kv) d) d kvs"

text \<open>All (key, element) pairs of a dictionary: keys in order, each key's list in order.\<close>

definition flat :: "'v multidict \<Rightarrow> (string \<times> 'v) list" where
  "flat d = concat (map (\<lambda>kv. map (Pair (fst kv)) (snd kv)) d)"

definition nonempty_lists :: "'v multidict \<Rightarrow> bool" where
  "nonempty_lists d = list_all (\<lambda>kv. snd kv \<noteq> []) d"

subsection \<open>What one syntax tree contributes\<close>

text \<open>
  The callee expressions below a list of nodes: the \<open>function\<close> child of every
  \<open>call_expression\<close> node that has one, in the order of the nodes.
\<close>

definition call_targets :: "node list \<Rightarrow> node list" where
  "call_targets subs =
     List.map_filter
       (\<lambda>sub. if ntype sub = ''call_expression'' then child_by_field_name sub ''function''
               else None) subs"

text \<open>The function definitions among a list of nodes for which a name is extracted.\<close>

definition named_defs :: "(string \<Rightarrow> string) \<Rightarrow> string \<Rightarrow> node list \<Rightarrow> node list" where
  "named_defs dec code ns =
     filter (\<lambda>n. ntype n = ''function_definition'' \<and>
                 get_function_name dec n code \<noteq> ''<unknown>'') ns"

text \<open>The first identifier-typed node of the pre-order traversal of a subtree.\<close>

definition first_identifier :: "node \<Rightarrow> node option" where
  "first_identifier nd = List.find (\<lambda>n. ntype n = ''identifier'') (walk nd)"

text \<open>The call sites of one function definition, each with the caller's name.\<close>

definition node_sites :: "env \<Rightarrow> path \<Rightarrow> string \<Rightarrow> node \<Rightarrow> (string \<times> call_site) list" where
  "node_sites E p code n =
     map (\<lambda>fn. (get_function_name (decode E) n code, site_entry (decode E) p code fn))
         (call_targets (walk n))"

definition tree_defs :: "env \<Rightarrow> path \<Rightarrow> string \<Rightarrow> node list \<Rightarrow> (string \<times> func_def) list" where
  "tree_defs E p code ns =
     map (\<lambda>n. (get_function_name (decode E) n code, def_entry p n))
         (named_defs (decode E) code ns)"

definition tree_sites :: "env \<Rightarrow> path \<Rightarrow> string \<Rightarrow> node list \<Rightarrow> (string \<times> call_site) list" where
  "tree_sites E p code ns =
     concat (map (node_sites E p code) (named_defs (decode E) code ns))"

subsection \<open>What one file contributes\<close>

text \<open>The bytes and the root node of a file that is read and parsed without failure.\<close>

definition parsed :: "env \<Rightarrow> path \<Rightarrow> (string \<times> node) option" where
  "parsed E p =
     (case read_bytes E p of
        Inl e \<Rightarrow> None
      | Inr code \<Rightarrow> (case parse E code of Inl e \<Rightarrow> None | Inr root \<Rightarrow> Some (code, root)))"


definition file_defs :: "env \<Rightarrow> path \<Rightarrow> (string \<times> func_def) list" where
  "file_defs E p =
     (case parsed E p of None \<Rightarrow> [] | Some cr \<Rightarrow> tree_defs E p (fst cr) (walk (snd cr)))"

definition file_sites :: "env \<Rightarrow> path \<Rightarrow> (string \<times> call_site) list" where
  "file_sites E p =
     (case parsed E p of None \<Rightarrow> [] | Some cr \<Rightarrow> tree_sites E p (fst cr) (walk (snd cr)))"

definition file_errs :: "env \<Rightarrow> path \<Rightarrow> file_error list" where
  "file_errs E p =
     (case read_bytes E p of
        Inl e \<Rightarrow> [\<lparr>fe_file = str_path p, fe_error = ''read failed: '' @ e\<rparr>]
      | Inr code \<Rightarrow>
          (case parse E code of
             Inl e \<Rightarrow> [\<lparr>fe_file = str_path p, fe_error = ''parse failed: '' @ e\<rparr>]
           | Inr root \<Rightarrow> []))"

text \<open>The definition entries of one file under one name, in discovery order.\<close>

definition defs_named :: "env \<Rightarrow> string \<Rightarrow> path \<Rightarrow> func_def list" where
  "defs_named E name p = map snd (filter (\<lambda>kv. fst kv = name) (file_defs E p))"

definition all_defs :: "env \<Rightarrow> path list \<Rightarrow> (string \<times> func_def) list" where
  "all_defs E ps = concat (map (file_defs E) ps)"

definition all_sites :: "env \<Rightarrow> path list \<Rightarrow> (string \<times> call_site) list" where
  "all_sites E ps = concat (map (file_sites E) ps)"

subsection \<open>Trees within the recursion limit\<close>



subsection \<open>The two directions of the call relation\<close>

definition callee_of :: "string \<times> call_site \<Rightarrow> string \<times> string" where
  "callee_of cs = (fst cs, callee (snd cs))"

text \<open>The record that the inversion files under the callee for a (caller, site) pair.\<close>

definition inv_entry :: "string \<times> call_site \<Rightarrow> string \<times> caller_site" where
  "inv_entry e =
     (callee (snd e),
      \<lparr>caller = fst e, cb_file = cs_file (snd e), cb_line = cs_line (snd e),
       cb_col = cs_col (snd e)\<rparr>)"

text \<open>The (caller, callee, file, line, col) tuple of an entry of either map.\<close>

definition out_tuple :: "string \<times> call_site \<Rightarrow> string \<times> string \<times> string \<times> nat \<times> nat" where
  "out_tuple e = (fst e, callee (snd e), cs_file (snd e), cs_line (snd e), cs_col (snd e))"

definition in_tuple :: "string \<times> caller_site \<Rightarrow> string \<times> string \<times> string \<times> nat \<times> nat" where
  "in_tuple e = (caller (snd e), fst e, cb_file (snd e), cb_line (snd e), cb_col (snd e))"

subsection \<open>Directory trees\<close>

text \<open>
  Every file of a tree with the names of the directories that lead to it from the root
  (the root itself excluded), in walk order and with no pruning.
\<close>

fun all_files :: "dirtree \<Rightarrow> (string list \<times> string) list" where
  "all_files (Dir dirs files) =
     map (Pair []) files @
     concat (map (\<lambda>d. map (\<lambda>e. (fst d # fst e, snd e)) (all_files (snd d))) dirs)"

text \<open>The tree with every sub-directory of an ignored or hidden name removed, at any depth.\<close>

fun prune :: "dirtree \<Rightarrow> dirtree" where
  "prune (Dir dirs files) =
     Dir (map (\<lambda>d. (fst d, prune (snd d))) (filter (\<lambda>d. keep_dir (fst d)) dirs)) files"

text \<open>
  The ignore rule as the specification words it: the name ends in \<open>.c\<close> or \<open>.h\<close> and no
  directory between the root and the file is in the ignore set or starts with a dot.
\<close>

definition enumerated :: "string list \<Rightarrow> string \<Rightarrow> bool" where
  "enumerated ds fn =
     ((endswith fn ''.c'' \<or> endswith fn ''.h'') \<and>
      (\<forall>d\<in>set ds. d \<notin> set ignore_dirs \<and> \<not> startswith d ''.''))"

definition located :: "path \<Rightarrow> string list \<times> string \<Rightarrow> path" where
  "located dirpath e = dirpath @ fst e @ [snd e]"

section \<open>A small source tree\<close>

text \<open>
  After the scenario of the specification: \<open>a.c\<close> holds
  \<open>void helper(){} void main(){ helper(); helper(); }\<close>, \<open>b.c\<close> cannot be read; in
  addition a hidden header \<open>.cfg.h\<close> defines \<open>helper\<close> again and \<open>.git\<close> holds
  a \<open>.c\<close> file. All nodes lie on row 0, so a column is a byte offset.
\<close>

definition leaf :: "string \<Rightarrow> nat \<Rightarrow> nat \<Rightarrow> node" where
  "leaf ty a b = Node ty a b (0, a) (0, b) []"

definition ex_code :: string where
  "ex_code = ''void helper(){} void main(){ helper(); helper(); }''"

definition ex_decl :: "nat \<Rightarrow> nat \<Rightarrow> node" where
  "ex_decl a b =
     Node ''function_declarator'' a (b + 2) (0, a) (0, b + 2)
       [(Some ''declarator'', leaf ''identifier'' a b),
        (Some ''parameters'', leaf ''parameter_list'' b (b + 2))]"

definition ex_helper :: node where
  "ex_helper =
     Node ''function_definition'' 0 15 (0, 0) (0, 15)
       [(Some ''type'', leaf ''primitive_type'' 0 4),
        (Some ''declarator'', ex_decl 5 11),
        (Some ''body'', leaf ''compound_statement'' 13 15)]"

definition ex_call :: "nat \<Rightarrow> node" where
  "ex_call a =
     Node ''expression_statement'' a (a + 9) (0, a) (0, a + 9)
       [(None,
           Node ''call_expression'' a (a + 8) (0, a) (0, a + 8)
             [(Some ''function'', leaf ''identifier'' a (a + 6)),
              (Some ''arguments'', leaf ''argument_list'' (a + 6) (a + 8))]),
        (None, leaf '';'' (a + 8) (a + 9))]"

definition ex_main :: node where
  "ex_main =
     Node ''function_definition'' 16 50 (0, 16) (0, 50)
       [(Some ''type'', leaf ''primitive_type'' 16 20),
        (Some ''declarator'', ex_decl 21 25),
        (Some ''body'',
           Node ''compound_statement'' 27 50 (0, 27) (0, 50)
             [(None, ex_call 29), (None, ex_call 39)])]"

definition ex_root :: node where
  "ex_root = Node ''translation_unit'' 0 50 (0, 0) (0, 50) [(None, ex_helper), (None, ex_main)]"

definition ex_header :: node where
  "ex_header = Node ''translation_unit'' 0 15 (0, 0) (0, 15) [(None, ex_helper)]"

text \<open>
  \<open>void (){}\<close>: a function definition whose declarator holds an identifier of width zero,
  as an error-recovering parser inserts for a missing token.
\<close>

definition ex_anon :: node where
  "ex_anon =
     Node ''function_definition'' 0 9 (0, 0) (0, 9)
       [(Some ''type'', leaf ''primitive_type'' 0 4),
        (Some ''declarator'', ex_decl 5 5),
        (Some ''body'', leaf ''compound_statement'' 7 9)]"

definition ex_folder :: path where
  "ex_folder = [''/'', ''proj'']"

definition ex_src_a :: path where
  "ex_src_a = [''/'', ''proj'', ''src'', ''a.c'']"

definition ex_src_b :: path where
  "ex_src_b = [''/'', ''proj'', ''src'', ''b.c'']"

definition ex_src_h :: path where
  "ex_src_h = [''/'', ''proj'', ''src'', ''.cfg.h'']"

definition ex_tree :: dirtree where
  "ex_tree =
     Dir [(''.git'', Dir [] [''hook.c'']),
          (''src'', Dir [] [''a.c'', ''b.c'', ''.cfg.h'', ''notes.txt''])]
         [''README'']"

definition ex_env :: env where
  "ex_env =
     \<lparr>read_bytes = (\<lambda>p.
        if p = [''/'', ''proj'', ''src'', ''a.c''] then Inr ex_code
        else if p = [''/'', ''proj'', ''src'', ''.cfg.h''] then Inr (take 15 ex_code)
        else Inl ''[Errno 13] Permission denied''),
      parse = (\<lambda>code.
        if code = ex_code then Inr ex_root
        else if code = take 15 ex_code then Inr ex_header
        else Inr (leaf ''translation_unit'' 0 (length code))),
      decode = (\<lambda>b. b)\<rparr>"

definition ex_doc :: document where
  "ex_doc =
     \<lparr>doc_root = ''/proj'',
      doc_functions =
        [(''helper'',
          [\<lparr>fd_file = ''/proj/src/a.c'', start_line = 1, end_line = 1\<rparr>,
           \<lparr>fd_file = ''/proj/src/.cfg.h'', start_line = 1, end_line = 1\<rparr>]),
         (''main'',
          [\<lparr>fd_file = ''/proj/src/a.c'', start_line = 1, end_line = 1\<rparr>])],
      doc_calls = [(''main'', [''helper'', ''helper''])],
      doc_call_sites =
        [(''main'',
          [\<lparr>callee = ''helper'', cs_file = ''/proj/src/a.c'', cs_line = 1, cs_col = 30\<rparr>,
           \<lparr>callee = ''helper'', cs_file = ''/proj/src/a.c'', cs_line = 1, cs_col = 40\<rparr>])],
      doc_called_by_sites =
        [(''helper'',
          [\<lparr>caller = ''main'', cb_file = ''/proj/src/a.c'', cb_line = 1, cb_col = 30\<rparr>,
           \<lparr>caller = ''main'', cb_file = ''/proj/src/a.c'', cb_line = 1, cb_col = 40\<rparr>])],
      doc_stats =
        \<lparr>num_functions = 3, num_unique_function_names = 2, num_callers = 1,
         num_call_sites = 2, num_files_with_errors = 1\<rparr>,
      doc_errors =
        [\<lparr>fe_file = ''/proj/src/b.c'',
          fe_error = ''read failed: [Errno 13] Permission denied''\<rparr>]\<rparr>"









section \<open>Lemmas\<close>

subsection \<open>Appending to a dictionary\<close>

lemma extend_Nil [simp]: "extend d [] = d"
  by (simp add: extend_def)

lemma extend_Cons [simp]: "extend d (kv # kvs) = extend (append_to (fst kv) (snd kv) d) kvs"
  by (simp add: extend_def)

lemma extend_append: "extend d (xs @ ys) = extend (extend d xs) ys"
  by (simp add: extend_def)

lemma keys_append_to:
  "map fst (append_to k v d) = (if k \<in> fst ` set d then map fst d else map fst d @ [k])"
  by (induction d) force+

lemma distinct_append_to: "distinct (map fst d) \<Longrightarrow> distinct (map fst (append_to k v d))"
  by (simp add: keys_append_to)

lemma entries_append_to:
  "entries (append_to k v d) k' = (if k' = k then entries d k @ [v] else entries d k')"
  by (induction d) (auto simp: entries_def)

lemma entries_extend:
  "entries (extend d kvs) k = entries d k @ map snd (filter (\<lambda>kv. fst kv = k) kvs)"
  by (induction kvs arbitrary: d) (auto simp: entries_append_to)

lemma entries_absent: "k \<notin> fst ` set d \<Longrightarrow> entries d k = []"
  by (induction d) (auto simp: entries_def)

lemma entries_present:
  "nonempty_lists d \<Longrightarrow> k \<in> fst ` set d \<Longrightarrow> entries d k \<noteq> []"
  by (induction d) (auto simp: nonempty_lists_def entries_def)

lemma keys_set_extend: "fst ` set (extend d kvs) = fst ` set d \<union> fst ` set kvs"
proof (induction kvs arbitrary: d)
  case Nil then show ?case by simp
next
  case (Cons kv kvs)
  have "fst ` set (append_to (fst kv) (snd kv) d) = insert (fst kv) (fst ` set d)"
  proof -
    have "set (map fst (append_to (fst kv) (snd kv) d)) = insert (fst kv) (fst ` set d)"
      by (auto simp: keys_append_to)
    then show ?thesis by simp
  qed
  with Cons show ?case by auto
qed

lemma keys_extend_Nil: "fst ` set (extend [] kvs) = fst ` set kvs"
  by (simp add: keys_set_extend)

lemma distinct_extend: "distinct (map fst d) \<Longrightarrow> distinct (map fst (extend d kvs))"
  by (induction kvs arbitrary: d) (auto simp: distinct_append_to)

lemma nonempty_Nil: "nonempty_lists []"
  by (simp add: nonempty_lists_def)

lemma nonempty_append_to: "nonempty_lists d \<Longrightarrow> nonempty_lists (append_to k v d)"
  by (induction d) (auto simp: nonempty_lists_def)

lemma nonempty_extend: "nonempty_lists d \<Longrightarrow> nonempty_lists (extend d kvs)"
  by (induction kvs arbitrary: d) (auto simp: nonempty_append_to)

lemma keys_with_entries:
  "nonempty_lists d \<Longrightarrow> {k. entries d k \<noteq> []} = fst ` set d"
  using entries_present entries_absent by blast

lemma flat_Nil [simp]: "flat [] = []"
  by (simp add: flat_def)

lemma flat_Cons: "flat ((k, vs) # d) = map (Pair k) vs @ flat d"
  by (simp add: flat_def)

lemma mset_flat_append_to: "mset (flat (append_to k v d)) = add_mset (k, v) (mset (flat d))"
  by (induction d) (auto simp: flat_def)

lemma mset_flat_extend: "mset (flat (extend d kvs)) = mset (flat d) + mset kvs"
  by (induction kvs arbitrary: d) (auto simp: mset_flat_append_to)

lemma set_flat_extend_Nil: "set (flat (extend [] kvs)) = set kvs"
  by (metis mset_flat_extend flat_Nil mset.simps(1) add.left_neutral set_mset_mset)

lemma total_len_append_to: "total_len (append_to k v d) = Suc (total_len d)"
  by (induction d) (auto simp: total_len_def)

lemma total_len_extend: "total_len (extend d kvs) = total_len d + length kvs"
  by (induction kvs arbitrary: d) (auto simp: total_len_append_to)

lemma total_len_flat: "total_len d = length (flat d)"
  by (induction d) (auto simp: total_len_def flat_def)

lemma count_Pair:
  "count_list (map (Pair k) vs) (c, s) = (if k = c then count_list vs s else 0)"
  by (induction vs) auto

lemma count_flat:
  "distinct (map fst d) \<Longrightarrow> count_list (flat d) (c, s) = count_list (entries d c) s"
proof (induction d)
  case Nil
  show ?case by (simp add: entries_def)
next
  case (Cons a d)
  obtain k vs where a: "a = (k, vs)" by (cases a)
  note fl = flat_Cons
  note cnt = count_Pair
  show ?case
  proof (cases "k = c")
    case True
    with Cons.prems a have "c \<notin> fst ` set d" by auto
    then have "entries d c = []" by (rule entries_absent)
    with Cons True a show ?thesis
      by (simp add: fl cnt entries_def)
  next
    case False
    with Cons a show ?thesis
      by (simp add: fl cnt entries_def)
  qed
qed

lemma count_filtered_image:
  assumes "\<And>y. f y = (k, v) \<longleftrightarrow> y = x"
  shows "count_list (map snd (filter (\<lambda>kv. fst kv = k) (map f xs))) v = count_list xs x"
proof (induction xs)
  case Nil
  show ?case by simp
next
  case (Cons y ys)
  have "(fst (f y) = k \<and> snd (f y) = v) \<longleftrightarrow> y = x"
    using assms [of y] by (cases "f y") auto
  with Cons show ?case by auto
qed

lemma sum_entries_distinct:
  "distinct (map fst d) \<Longrightarrow> (\<Sum>k\<in>fst ` set d. length (entries d k)) = total_len d"
proof (induction d)
  case Nil
  show ?case by (simp add: total_len_def)
next
  case (Cons a d)
  obtain k vs where a: "a = (k, vs)" by (cases a)
  from Cons.prems a have nk: "k \<notin> fst ` set d" and dd: "distinct (map fst d)" by auto
  have same: "entries (a # d) j = entries d j" if "j \<in> fst ` set d" for j
    using that nk by (auto simp: entries_def a)
  have "(\<Sum>j\<in>fst ` set (a # d). length (entries (a # d) j)) =
        length (entries (a # d) k) + (\<Sum>j\<in>fst ` set d. length (entries (a # d) j))"
    using nk by (simp add: a)
  also have "(\<Sum>j\<in>fst ` set d. length (entries (a # d) j)) = (\<Sum>j\<in>fst ` set d. length (entries d j))"
    by (rule sum.cong) (simp_all add: same)
  also have "length (entries (a # d) k) = length vs"
    by (simp add: entries_def a)
  finally show ?case
    using Cons.IH [OF dd] by (simp add: total_len_def a)
qed

lemma card_keys_distinct: "distinct (map fst d) \<Longrightarrow> card (fst ` set d) = length d"
  by (metis distinct_card length_map list.set_map)

lemma filter_key_concat:
  "map snd (filter (\<lambda>kv. fst kv = name) (concat (map f ps))) =
     concat (map (\<lambda>p. map snd (filter (\<lambda>kv. fst kv = name) (f p))) ps)"
  by (induction ps) auto

subsection \<open>The loops collect the views\<close>

lemma scan_calls_trace:
  "foldl (scan_call E p code f) st subs =
     st\<lparr>calls_map := extend (calls_map st)
            (map (\<lambda>fn. (f, node_text (decode E) fn code)) (call_targets subs)),
        call_sites := extend (call_sites st)
            (map (\<lambda>fn. (f, site_entry (decode E) p code fn)) (call_targets subs))\<rparr>"
proof (induction subs arbitrary: st)
  case Nil
  show ?case by (simp add: call_targets_def)
next
  case (Cons sub subs)
  show ?case
    by (simp add: Cons.IH) (simp add: scan_call_def call_targets_def map_filter_simps split: option.split)
qed

lemma callee_site_entry: "callee (site_entry dec p code fn) = node_text dec fn code"
  by (simp add: site_entry_def)

lemma scan_node_trace:
  "scan_node E p code st n =
     st\<lparr>functions_map := extend (functions_map st) (tree_defs E p code [n]),
        calls_map := extend (calls_map st) (map callee_of (tree_sites E p code [n])),
        call_sites := extend (call_sites st) (tree_sites E p code [n])\<rparr>"
  by (simp add: scan_node_def scan_calls_trace tree_defs_def tree_sites_def named_defs_def
      node_sites_def callee_of_def callee_site_entry Let_def o_def)

lemma tree_defs_Cons: "tree_defs E p code (n # ns) = tree_defs E p code [n] @ tree_defs E p code ns"
  by (simp add: tree_defs_def named_defs_def)

lemma tree_sites_Cons: "tree_sites E p code (n # ns) = tree_sites E p code [n] @ tree_sites E p code ns"
  by (simp add: tree_sites_def named_defs_def)

lemma scan_nodes_trace:
  "foldl (scan_node E p code) st ns =
     st\<lparr>functions_map := extend (functions_map st) (tree_defs E p code ns),
        calls_map := extend (calls_map st) (map callee_of (tree_sites E p code ns)),
        call_sites := extend (call_sites st) (tree_sites E p code ns)\<rparr>"
proof (induction ns arbitrary: st)
  case Nil
  show ?case by (simp add: tree_defs_def tree_sites_def named_defs_def)
next
  case (Cons n ns)
  show ?case
    by (simp add: Cons.IH) (simp add: scan_node_trace tree_defs_Cons [of E p code n ns]
        tree_sites_Cons [of E p code n ns] extend_append)
qed

lemma process_file_trace:
  "process_file E st p =
     st\<lparr>functions_map := extend (functions_map st) (file_defs E p),
        calls_map := extend (calls_map st) (map callee_of (file_sites E p)),
        call_sites := extend (call_sites st) (file_sites E p),
        file_errors := file_errors st @ file_errs E p\<rparr>"
  by (simp add: process_file_def scan_nodes_trace file_defs_def file_sites_def file_errs_def
      parsed_def split: sum.split)

lemma index_files_trace:
  "index_files E st ps =
     st\<lparr>functions_map := extend (functions_map st) (concat (map (file_defs E) ps)),
        calls_map := extend (calls_map st) (map callee_of (concat (map (file_sites E) ps))),
        call_sites := extend (call_sites st) (concat (map (file_sites E) ps)),
        file_errors := file_errors st @ concat (map (file_errs E) ps)\<rparr>"
proof (induction ps arbitrary: st)
  case Nil
  show ?case by (simp add: index_files_def)
next
  case (Cons p ps)
  have "index_files E st (p # ps) = index_files E (process_file E st p) ps"
    by (simp add: index_files_def)
  then show ?case
    by (simp add: Cons.IH) (simp add: process_file_trace extend_append)
qed

lemma invert_inner:
  "foldl (invert_site c) cb sites = extend cb (map (\<lambda>s. inv_entry (c, s)) sites)"
  by (induction sites arbitrary: cb) (auto simp: invert_site_def inv_entry_def)

lemma invert_outer:
  "foldl (\<lambda>cb a. foldl (invert_site (fst a)) cb (snd a)) cb cs =
     extend cb (map inv_entry (flat cs))"
proof (induction cs arbitrary: cb)
  case Nil
  show ?case by (simp add: flat_def)
next
  case (Cons a cs)
  have fl: "flat (a # cs) = map (Pair (fst a)) (snd a) @ flat cs"
    by (simp add: flat_def)
  have "foldl (\<lambda>cb a. foldl (invert_site (fst a)) cb (snd a)) cb (a # cs) =
      extend (foldl (invert_site (fst a)) cb (snd a)) (map inv_entry (flat cs))"
    by (simp add: Cons.IH)
  also have "\<dots> = extend cb (map inv_entry (flat (a # cs)))"
    by (simp add: invert_inner fl extend_append o_def)
  finally show ?case .
qed

lemma invert_sites_trace: "invert_sites cs = extend [] (map inv_entry (flat cs))"
  by (simp add: invert_sites_def case_prod_unfold invert_outer)

lemma doc_functions_trace:
  "doc_functions (analyze_folder E folder tree) =
     extend [] (all_defs E (iter_source_files folder tree))"
  by (simp add: analyze_folder_def build_result_def index_files_trace empty_state_def all_defs_def)

lemma doc_calls_trace:
  "doc_calls (analyze_folder E folder tree) =
     extend [] (map callee_of (all_sites E (iter_source_files folder tree)))"
  by (simp add: analyze_folder_def build_result_def index_files_trace empty_state_def all_sites_def)

lemma doc_call_sites_trace:
  "doc_call_sites (analyze_folder E folder tree) =
     extend [] (all_sites E (iter_source_files folder tree))"
  by (simp add: analyze_folder_def build_result_def index_files_trace empty_state_def all_sites_def)

lemma doc_called_by_sites_trace:
  "doc_called_by_sites (analyze_folder E folder tree) =
     extend [] (map inv_entry (flat (doc_call_sites (analyze_folder E folder tree))))"
  by (simp add: analyze_folder_def build_result_def invert_sites_trace)


lemma in_tuple_inv_entry: "in_tuple (inv_entry e) = out_tuple e"
  by (simp add: in_tuple_def inv_entry_def out_tuple_def)

lemma inv_entry_inj:
  "inv_entry y = (callee s, \<lparr>caller = c, cb_file = cs_file s, cb_line = cs_line s, cb_col = cs_col s\<rparr>)
     \<longleftrightarrow> y = (c, s)"
  by (cases y) (auto simp: inv_entry_def)

subsection \<open>Names and failing files\<close>

lemma get_function_name_cases:
  "get_function_name dec n code =
     (case child_by_field_name n ''declarator'' of
        None \<Rightarrow> ''<unknown>''
      | Some decl \<Rightarrow>
          (case first_identifier decl of
             None \<Rightarrow> ''<unknown>''
           | Some ident \<Rightarrow>
               if node_text dec ident code = [] then ''<unknown>'' else node_text dec ident code))"
  by (simp add: get_function_name_def find_identifier_in_subtree_def first_identifier_def
      split: option.split)

lemma scan_node_unknown:
  "get_function_name (decode E) n code = ''<unknown>'' \<Longrightarrow> scan_node E p code st n = st"
  by (simp add: scan_node_def)

lemma tree_defs_named:
  "ntype n = ''function_definition'' \<Longrightarrow> get_function_name (decode E) n code \<noteq> ''<unknown>'' \<Longrightarrow>
     tree_defs E p code [n] = [(get_function_name (decode E) n code, def_entry p n)]"
  by (simp add: tree_defs_def named_defs_def)

lemma tree_sites_named:
  "ntype n = ''function_definition'' \<Longrightarrow> get_function_name (decode E) n code \<noteq> ''<unknown>'' \<Longrightarrow>
     tree_sites E p code [n] = node_sites E p code n"
  by (simp add: tree_sites_def named_defs_def)






subsection \<open>Enumeration\<close>

lemma keep_dir_iff: "keep_dir d \<longleftrightarrow> d \<notin> set ignore_dirs \<and> \<not> startswith d ''.''"
  by (simp add: keep_dir_def)

lemma enumerated_Nil: "enumerated [] fn = is_source fn"
  by (simp add: enumerated_def is_source_def)

lemma enumerated_Cons: "enumerated (d # ds) fn = (keep_dir d \<and> enumerated ds fn)"
  by (auto simp: enumerated_def keep_dir_iff)

lemma subdir_enumeration:
  assumes "\<And>dirpath. iter_source_files dirpath t =
             map (located dirpath) (filter (\<lambda>e. enumerated (fst e) (snd e)) (all_files t))"
  shows "(if keep_dir d then iter_source_files (dirpath @ [d]) t else []) =
         map (located dirpath)
           (filter (\<lambda>e. enumerated (fst e) (snd e)) (map (\<lambda>e. (d # fst e, snd e)) (all_files t)))"
  by (simp add: assms filter_map o_def enumerated_Cons located_def)

lemma iter_source_files_enumerated:
  "iter_source_files dirpath t =
     map (located dirpath) (filter (\<lambda>e. enumerated (fst e) (snd e)) (all_files t))"
proof (induction t arbitrary: dirpath rule: all_files.induct)
  case (1 dirs files)
  have files: "map (\<lambda>fn. dirpath @ [fn]) (filter is_source files) =
      map (located dirpath) (filter (\<lambda>e. enumerated (fst e) (snd e)) (map (Pair []) files))"
    by (simp add: filter_map o_def enumerated_Nil located_def)
  have sub: "concat (map (\<lambda>d. iter_source_files (dirpath @ [fst d]) (snd d))
                 (filter (\<lambda>d. keep_dir (fst d)) ds)) =
      map (located dirpath) (filter (\<lambda>e. enumerated (fst e) (snd e))
        (concat (map (\<lambda>d. map (\<lambda>e. (fst d # fst e, snd e)) (all_files (snd d))) ds)))"
    if "set ds \<subseteq> set dirs" for ds
    using that
  proof (induction ds)
    case Nil
    show ?case by simp
  next
    case (Cons a ds)
    have a: "a \<in> set dirs" using Cons.prems by simp
    have "(if keep_dir (fst a) then iter_source_files (dirpath @ [fst a]) (snd a) else []) =
         map (located dirpath)
           (filter (\<lambda>e. enumerated (fst e) (snd e))
              (map (\<lambda>e. (fst a # fst e, snd e)) (all_files (snd a))))"
      by (rule subdir_enumeration) (rule "1.IH" [OF a])
    moreover have "set ds \<subseteq> set dirs" using Cons.prems by simp
    ultimately show ?case
      using Cons.IH by (cases "keep_dir (fst a)") simp_all
  qed
  show ?case
    using files sub [of dirs] by simp
qed

lemma iter_source_files_prune: "iter_source_files dirpath (prune t) = iter_source_files dirpath t"
proof (induction t arbitrary: dirpath rule: prune.induct)
  case (1 dirs files)
  have step: "iter_source_files (dirpath @ [fst d]) (prune (snd d)) =
              iter_source_files (dirpath @ [fst d]) (snd d)"
    if "d \<in> set (filter (\<lambda>d. keep_dir (fst d)) dirs)" for d
    using "1.IH" [OF that] .
  have key: "map ((\<lambda>d. iter_source_files (dirpath @ [fst d]) (snd d)) \<circ> (\<lambda>d. (fst d, prune (snd d))))
          (filter (\<lambda>d. keep_dir (fst d)) dirs) =
        map (\<lambda>d. iter_source_files (dirpath @ [fst d]) (snd d)) (filter (\<lambda>d. keep_dir (fst d)) dirs)"
    by (rule map_cong) (simp_all add: step del: set_filter)
  show ?case
    by (simp add: filter_map key)
qed

subsection \<open>Within the recursion limit the two models agree\<close>





















subsection \<open>The small source tree, evaluated\<close>

lemma ex_files: "iter_source_files ex_folder ex_tree = [ex_src_a] @ ex_src_b # [ex_src_h]"
  by code_simp

lemma ex_analysis: "analyze_folder ex_env ex_folder ex_tree = ex_doc"
  by code_simp


lemma ex_helper_defs:
  "concat (map (defs_named ex_env ''helper'') (iter_source_files ex_folder ex_tree)) =
     [\<lparr>fd_file = ''/proj/src/a.c'', start_line = 1, end_line = 1\<rparr>,
      \<lparr>fd_file = ''/proj/src/.cfg.h'', start_line = 1, end_line = 1\<rparr>]"
  by code_simp

lemma ex_main_name:
  "child_by_field_name ex_main ''declarator'' = Some (ex_decl 21 25)
   \<and> first_identifier (ex_decl 21 25) = Some (leaf ''identifier'' 21 25)
   \<and> node_text (decode ex_env) (leaf ''identifier'' 21 25) ex_code = ''main''"
  by code_simp

lemma ex_anon_name:
  "child_by_field_name ex_anon ''declarator'' = Some (ex_decl 5 5)
   \<and> first_identifier (ex_decl 5 5) = Some (leaf ''identifier'' 5 5)
   \<and> node_text (decode ex_env) (leaf ''identifier'' 5 5) ''void (){}'' = []"
  by code_simp

lemma ex_main_calls:
  "ntype ex_main = ''function_definition''
   \<and> get_function_name (decode ex_env) ex_main ex_code = ''main''
   \<and> map (\<lambda>fn. node_text (decode ex_env) fn ex_code) (call_targets (walk ex_main)) =
       [''helper'', ''helper'']
   \<and> map (\<lambda>fn. \<lparr>callee = node_text (decode ex_env) fn ex_code, cs_file = str_path ex_src_a,
                  cs_line = fst (start_point fn) + 1, cs_col = snd (start_point fn) + 1\<rparr>)
         (call_targets (walk ex_main)) =
       [\<lparr>callee = ''helper'', cs_file = ''/proj/src/a.c'', cs_line = 1, cs_col = 30\<rparr>,
        \<lparr>callee = ''helper'', cs_file = ''/proj/src/a.c'', cs_line = 1, cs_col = 40\<rparr>]"
  by code_simp

lemma ex_pruned:
  "prune ex_tree = Dir [(''src'', Dir [] [''a.c'', ''b.c'', ''.cfg.h'', ''notes.txt''])] [''README'']"
  by code_simp

lemma ex_all_files:
  "all_files ex_tree =
     [([], ''README''), ([''.git''], ''hook.c''), ([''src''], ''a.c''), ([''src''], ''b.c''),
      ([''src''], ''.cfg.h''), ([''src''], ''notes.txt'')]"
  by code_simp

lemma ex_hidden:
  "([''src''], ''.cfg.h'') \<in> set (all_files ex_tree)
   \<and> ''src'' \<notin> set ignore_dirs \<and> \<not> startswith ''src'' ''.''
   \<and> startswith ''.cfg.h'' ''.'' \<and> endswith ''.cfg.h'' ''.h''
   \<and> ex_folder @ [''src''] @ [''.cfg.h''] = ex_src_h
   \<and> file_defs ex_env ex_src_h =
       [(''helper'', \<lparr>fd_file = ''/proj/src/.cfg.h'', start_line = 1, end_line = 1\<rparr>)]"
  by code_simp





section \<open>The claims\<close>

text \<open>
  C1 (inverse-index consistency). In the document of any run, the entries of
  \<open>called_by_sites\<close> and the entries of \<open>call_sites\<close> carry the same
  (caller, callee, file, line, col) tuples with the same multiplicities, which is a
  bijection between the entries of the two maps. For every caller \<open>c\<close> and site \<open>s\<close>, the
  record \<open>{caller: c, file, line, col}\<close> occurs in \<open>called_by_sites[s.callee]\<close> exactly as
  often as \<open>s\<close> occurs in \<open>call_sites[c]\<close> (once for a site that is there once), and the
  total numbers of entries of the two maps are equal.
\<close>

theorem inverse_index_consistency:
  "mset (map in_tuple (flat (doc_called_by_sites (analyze_folder E folder tree)))) =
     mset (map out_tuple (flat (doc_call_sites (analyze_folder E folder tree))))
   \<and> (\<forall>c s. count_list (entries (doc_called_by_sites (analyze_folder E folder tree)) (callee s))
               \<lparr>caller = c, cb_file = cs_file s, cb_line = cs_line s, cb_col = cs_col s\<rparr> =
             count_list (entries (doc_call_sites (analyze_folder E folder tree)) c) s)
   \<and> total_len (doc_called_by_sites (analyze_folder E folder tree)) =
       total_len (doc_call_sites (analyze_folder E folder tree))"
proof -
  let ?d = "analyze_folder E folder tree"
  have m: "mset (flat (doc_called_by_sites ?d)) = mset (map inv_entry (flat (doc_call_sites ?d)))"
    by (simp add: doc_called_by_sites_trace mset_flat_extend)
  have "mset (map in_tuple (flat (doc_called_by_sites ?d))) =
          image_mset in_tuple (mset (map inv_entry (flat (doc_call_sites ?d))))"
    using m by (metis mset_map)
  then have one: "mset (map in_tuple (flat (doc_called_by_sites ?d))) =
      mset (map out_tuple (flat (doc_call_sites ?d)))"
    by (simp add: in_tuple_inv_entry image_mset.compositionality o_def)
  have dist: "distinct (map fst (doc_call_sites ?d))"
    by (simp add: doc_call_sites_trace distinct_extend)
  have two: "count_list (entries (doc_called_by_sites ?d) (callee s))
               \<lparr>caller = c, cb_file = cs_file s, cb_line = cs_line s, cb_col = cs_col s\<rparr> =
             count_list (entries (doc_call_sites ?d) c) s" for c s
  proof -
    have "entries (doc_called_by_sites ?d) (callee s) =
        map snd (filter (\<lambda>kv. fst kv = callee s) (map inv_entry (flat (doc_call_sites ?d))))"
      by (simp add: doc_called_by_sites_trace entries_extend) (simp add: entries_def)
    then show ?thesis
      by (simp add: count_filtered_image [where x = "(c, s)"] inv_entry_inj count_flat [OF dist])
  qed
  have "length (flat (doc_called_by_sites ?d)) = length (flat (doc_call_sites ?d))"
    using m by (metis size_mset length_map)
  then have three: "total_len (doc_called_by_sites ?d) = total_len (doc_call_sites ?d)"
    by (simp add: total_len_flat)
  from one two three show ?thesis by blast
qed

text \<open>
  In the small tree, \<open>main\<close> calls \<open>helper\<close> at columns 30 and 40: the inverse map holds
  exactly these two tuples, each record once.
\<close>

theorem inverse_index_consistency_witness:
  "mset (map in_tuple (flat (doc_called_by_sites (analyze_folder ex_env ex_folder ex_tree)))) =
     {#(''main'', ''helper'', ''/proj/src/a.c'', 1, 30), (''main'', ''helper'', ''/proj/src/a.c'', 1, 40)#}
   \<and> count_list (entries (doc_called_by_sites (analyze_folder ex_env ex_folder ex_tree)) ''helper'')
         \<lparr>caller = ''main'', cb_file = ''/proj/src/a.c'', cb_line = 1, cb_col = 30\<rparr> = 1
   \<and> total_len (doc_called_by_sites (analyze_folder ex_env ex_folder ex_tree)) = 2"
proof -
  note t = inverse_index_consistency [of ex_env ex_folder ex_tree]
  have cs: "doc_call_sites (analyze_folder ex_env ex_folder ex_tree) =
      [(''main'',
          [\<lparr>callee = ''helper'', cs_file = ''/proj/src/a.c'', cs_line = 1, cs_col = 30\<rparr>,
           \<lparr>callee = ''helper'', cs_file = ''/proj/src/a.c'', cs_line = 1, cs_col = 40\<rparr>])]"
    by (simp add: ex_analysis ex_doc_def)
  have 1: "mset (map in_tuple (flat (doc_called_by_sites (analyze_folder ex_env ex_folder ex_tree)))) =
     {#(''main'', ''helper'', ''/proj/src/a.c'', 1, 30), (''main'', ''helper'', ''/proj/src/a.c'', 1, 40)#}"
    using t unfolding cs by (simp add: flat_def out_tuple_def)
  from t have "count_list (entries (doc_called_by_sites (analyze_folder ex_env ex_folder ex_tree))
         (callee \<lparr>callee = ''helper'', cs_file = ''/proj/src/a.c'', cs_line = 1, cs_col = 30\<rparr>))
         \<lparr>caller = ''main'',
          cb_file = cs_file \<lparr>callee = ''helper'', cs_file = ''/proj/src/a.c'', cs_line = 1, cs_col = 30\<rparr>,
          cb_line = cs_line \<lparr>callee = ''helper'', cs_file = ''/proj/src/a.c'', cs_line = 1, cs_col = 30\<rparr>,
          cb_col = cs_col \<lparr>callee = ''helper'', cs_file = ''/proj/src/a.c'', cs_line = 1, cs_col = 30\<rparr>\<rparr> =
       count_list (entries (doc_call_sites (analyze_folder ex_env ex_folder ex_tree)) ''main'')
         \<lparr>callee = ''helper'', cs_file = ''/proj/src/a.c'', cs_line = 1, cs_col = 30\<rparr>"
    by blast
  then have 2: "count_list (entries (doc_called_by_sites (analyze_folder ex_env ex_folder ex_tree)) ''helper'')
         \<lparr>caller = ''main'', cb_file = ''/proj/src/a.c'', cb_line = 1, cb_col = 30\<rparr> = 1"
    unfolding cs by (simp add: entries_def)
  have 3: "total_len (doc_called_by_sites (analyze_folder ex_env ex_folder ex_tree)) = 2"
    using t unfolding cs by (simp add: total_len_def)
  from 1 2 3 show ?thesis by blast
qed




text \<open>
  C3 (multi-definition handling). \<open>functions[name]\<close> is the concatenation, over the
  enumerated files in order, of the entries of the definitions named \<open>name\<close> in each file
  in traversal order: one entry per definition, in discovery order, none overwritten and
  none merged.
\<close>

theorem multi_definition_handling:
  "entries (doc_functions (analyze_folder E folder tree)) name =
     concat (map (defs_named E name) (iter_source_files folder tree))"
proof -
  have "entries (doc_functions (analyze_folder E folder tree)) name =
      map snd (filter (\<lambda>kv. fst kv = name) (all_defs E (iter_source_files folder tree)))"
    by (simp add: doc_functions_trace entries_extend) (simp add: entries_def)
  then show ?thesis
    by (simp add: all_defs_def filter_key_concat defs_named_def [abs_def])
qed

text \<open>
  \<open>helper\<close> is defined in \<open>a.c\<close> and in \<open>.cfg.h\<close>: two entries, one per file.
\<close>

theorem multi_definition_handling_witness:
  "entries (doc_functions (analyze_folder ex_env ex_folder ex_tree)) ''helper'' =
     [\<lparr>fd_file = ''/proj/src/a.c'', start_line = 1, end_line = 1\<rparr>,
      \<lparr>fd_file = ''/proj/src/.cfg.h'', start_line = 1, end_line = 1\<rparr>]"
  using multi_definition_handling [of ex_env ex_folder ex_tree "''helper''"]
  by (simp only: ex_helper_defs)

text \<open>
  C4 (function naming and silent skip), as amended. When the declarator of a node has a
  first identifier-typed node in pre-order and the text of that node is not empty, the
  extracted name is that text; and the definition is then recorded under that name unless
  the text is the sentinel \<open><unknown>\<close>. When the node has no declarator, or the declarator
  subtree has no identifier node, or the first identifier's text is empty, scanning the
  node leaves the whole state as it was: nothing is recorded in any map and no error is
  added.
\<close>

theorem function_naming_and_silent_skip:
  "(child_by_field_name n ''declarator'' = Some decl \<and> first_identifier decl = Some ident \<and>
      node_text (decode E) ident code \<noteq> [] \<longrightarrow>
        get_function_name (decode E) n code = node_text (decode E) ident code)
   \<and> (ntype n = ''function_definition'' \<and>
      child_by_field_name n ''declarator'' = Some decl \<and> first_identifier decl = Some ident \<and>
      node_text (decode E) ident code \<noteq> [] \<and> node_text (decode E) ident code \<noteq> ''<unknown>'' \<longrightarrow>
        entries (functions_map (scan_node E p code st n)) (node_text (decode E) ident code) =
          entries (functions_map st) (node_text (decode E) ident code) @ [def_entry p n])
   \<and> (child_by_field_name n ''declarator'' = None \<or>
      (\<exists>d. child_by_field_name n ''declarator'' = Some d \<and>
           (first_identifier d = None \<or>
            (\<exists>i. first_identifier d = Some i \<and> node_text (decode E) i code = []))) \<longrightarrow>
        scan_node E p code st n = st)"
proof (intro conjI impI)
  assume "child_by_field_name n ''declarator'' = Some decl \<and> first_identifier decl = Some ident \<and>
      node_text (decode E) ident code \<noteq> []"
  then show "get_function_name (decode E) n code = node_text (decode E) ident code"
    by (simp add: get_function_name_cases)
next
  assume a: "ntype n = ''function_definition'' \<and>
      child_by_field_name n ''declarator'' = Some decl \<and> first_identifier decl = Some ident \<and>
      node_text (decode E) ident code \<noteq> [] \<and> node_text (decode E) ident code \<noteq> ''<unknown>''"
  then have nm: "get_function_name (decode E) n code = node_text (decode E) ident code"
    by (simp add: get_function_name_cases)
  with a have "tree_defs E p code [n] = [(node_text (decode E) ident code, def_entry p n)]"
    using tree_defs_named [of n E code p] by simp
  then show "entries (functions_map (scan_node E p code st n)) (node_text (decode E) ident code) =
          entries (functions_map st) (node_text (decode E) ident code) @ [def_entry p n]"
    by (simp add: scan_node_trace entries_append_to)
next
  assume "child_by_field_name n ''declarator'' = None \<or>
      (\<exists>d. child_by_field_name n ''declarator'' = Some d \<and>
           (first_identifier d = None \<or>
            (\<exists>i. first_identifier d = Some i \<and> node_text (decode E) i code = [])))"
  then have "get_function_name (decode E) n code = ''<unknown>''"
    by (auto simp: get_function_name_cases)
  then show "scan_node E p code st n = st"
    by (rule scan_node_unknown)
qed

text \<open>
  The claim without the amendment fails at \<open>void (){}\<close>: the declarator of the definition
  has a first identifier, of width zero; its text is the empty string, and the extracted
  name is the sentinel \<open><unknown>\<close>, since \<open>name or "<unknown>"\<close> treats the empty string as
  no name.
\<close>

theorem function_naming_counterexample:
  "ntype ex_anon = ''function_definition''
   \<and> child_by_field_name ex_anon ''declarator'' = Some (ex_decl 5 5)
   \<and> first_identifier (ex_decl 5 5) = Some (leaf ''identifier'' 5 5)
   \<and> node_text (\<lambda>b. b) (leaf ''identifier'' 5 5) ''void (){}'' = ''''
   \<and> get_function_name (\<lambda>b. b) ex_anon ''void (){}'' = ''<unknown>''
   \<and> get_function_name (\<lambda>b. b) ex_anon ''void (){}'' \<noteq>
       node_text (\<lambda>b. b) (leaf ''identifier'' 5 5) ''void (){}''"
  by code_simp

text \<open>
  \<open>main\<close> of the small tree is named by its first identifier and recorded; the definition
  \<open>void (){}\<close> is skipped without a trace.
\<close>

theorem function_naming_and_silent_skip_witness:
  "child_by_field_name ex_main ''declarator'' = Some (ex_decl 21 25)
   \<and> first_identifier (ex_decl 21 25) = Some (leaf ''identifier'' 21 25)
   \<and> get_function_name (decode ex_env) ex_main ex_code = ''main''
   \<and> entries (functions_map (scan_node ex_env ex_src_a ex_code empty_state ex_main)) ''main'' =
       entries (functions_map empty_state) ''main'' @ [def_entry ex_src_a ex_main]
   \<and> child_by_field_name ex_anon ''declarator'' = Some (ex_decl 5 5)
   \<and> first_identifier (ex_decl 5 5) = Some (leaf ''identifier'' 5 5)
   \<and> node_text (decode ex_env) (leaf ''identifier'' 5 5) ''void (){}'' = []
   \<and> scan_node ex_env ex_src_a ''void (){}'' empty_state ex_anon = empty_state"
proof -
  have ty: "ntype ex_main = ''function_definition''"
    by (simp add: ex_main_def)
  have ne: "''main'' \<noteq> ''<unknown>'' \<and> ''main'' \<noteq> ([] :: string)"
    by simp
  note named = function_naming_and_silent_skip
    [of ex_main "ex_decl 21 25" "leaf ''identifier'' 21 25" ex_env ex_code ex_src_a empty_state]
  note skipped = function_naming_and_silent_skip
    [of ex_anon "ex_decl 5 5" "leaf ''identifier'' 5 5" ex_env "''void (){}''" ex_src_a empty_state]
  from named ex_main_name ty ne
  have a: "get_function_name (decode ex_env) ex_main ex_code = ''main''
     \<and> entries (functions_map (scan_node ex_env ex_src_a ex_code empty_state ex_main)) ''main'' =
       entries (functions_map empty_state) ''main'' @ [def_entry ex_src_a ex_main]"
    by (simp del: One_nat_def)
  from skipped ex_anon_name
  have b: "scan_node ex_env ex_src_a ''void (){}'' empty_state ex_anon = empty_state"
    by blast
  from a b ex_main_name ex_anon_name show ?thesis by blast
qed

text \<open>
  C5 (call extraction). Scanning a function definition \<open>n\<close> with extracted name \<open>f\<close>
  appends to \<open>calls[f]\<close> the decoded source text of the \<open>function\<close> child of every call
  expression of the subtree of \<open>n\<close> that has such a child, and to \<open>call_sites[f]\<close> the record
  of that text, the file, and the child's start row and column each plus one, both in
  traversal order and one per match; the lists of all other callers are unchanged, a call
  expression without a \<open>function\<close> child adds nothing, and no error is recorded.
\<close>

theorem call_extraction:
  assumes "ntype n = ''function_definition''"
    and "get_function_name (decode E) n code = f"
    and "f \<noteq> ''<unknown>''"
  shows "(\<forall>k. entries (calls_map (scan_node E p code st n)) k =
            entries (calls_map st) k @
            (if k = f then map (\<lambda>fn. node_text (decode E) fn code) (call_targets (walk n)) else []))
       \<and> (\<forall>k. entries (call_sites (scan_node E p code st n)) k =
            entries (call_sites st) k @
            (if k = f
             then map (\<lambda>fn. \<lparr>callee = node_text (decode E) fn code, cs_file = str_path p,
                              cs_line = fst (start_point fn) + 1,
                              cs_col = snd (start_point fn) + 1\<rparr>) (call_targets (walk n))
             else []))
       \<and> length (call_targets (walk n)) =
           length (filter (\<lambda>sub. ntype sub = ''call_expression'' \<and>
                                  child_by_field_name sub ''function'' \<noteq> None) (walk n))
       \<and> file_errors (scan_node E p code st n) = file_errors st"
proof -
  have ts: "tree_sites E p code [n] =
      map (\<lambda>fn. (f, site_entry (decode E) p code fn)) (call_targets (walk n))"
    using assms by (simp add: tree_sites_named node_sites_def)
  have 1: "entries (calls_map (scan_node E p code st n)) k =
            entries (calls_map st) k @
            (if k = f then map (\<lambda>fn. node_text (decode E) fn code) (call_targets (walk n)) else [])" for k
    by (simp add: scan_node_trace entries_extend ts callee_of_def o_def callee_site_entry)
  have 2: "entries (call_sites (scan_node E p code st n)) k =
            entries (call_sites st) k @
            (if k = f
             then map (\<lambda>fn. \<lparr>callee = node_text (decode E) fn code, cs_file = str_path p,
                              cs_line = fst (start_point fn) + 1,
                              cs_col = snd (start_point fn) + 1\<rparr>) (call_targets (walk n))
             else [])" for k
    by (simp add: scan_node_trace entries_extend ts o_def site_entry_def)
  have 3: "length (call_targets subs) =
           length (filter (\<lambda>sub. ntype sub = ''call_expression'' \<and>
                                  child_by_field_name sub ''function'' \<noteq> None) subs)" for subs
    by (induction subs) (auto simp: call_targets_def map_filter_simps split: option.split)
  have 4: "file_errors (scan_node E p code st n) = file_errors st"
    by (simp add: scan_node_trace)
  from 1 2 3 4 show ?thesis by blast
qed

text \<open>
  \<open>main\<close> of the small tree: two calls of \<open>helper\<close>, at line 1, columns 30 and 40.
\<close>

theorem call_extraction_witness:
  "ntype ex_main = ''function_definition''
   \<and> get_function_name (decode ex_env) ex_main ex_code = ''main''
   \<and> entries (calls_map (scan_node ex_env ex_src_a ex_code empty_state ex_main)) ''main'' =
       [''helper'', ''helper'']
   \<and> entries (call_sites (scan_node ex_env ex_src_a ex_code empty_state ex_main)) ''main'' =
       [\<lparr>callee = ''helper'', cs_file = ''/proj/src/a.c'', cs_line = 1, cs_col = 30\<rparr>,
        \<lparr>callee = ''helper'', cs_file = ''/proj/src/a.c'', cs_line = 1, cs_col = 40\<rparr>]
   \<and> entries (calls_map (scan_node ex_env ex_src_a ex_code empty_state ex_main)) ''helper'' = []
   \<and> file_errors (scan_node ex_env ex_src_a ex_code empty_state ex_main) = []"
proof -
  have ty: "ntype ex_main = ''function_definition''"
    and nm: "get_function_name (decode ex_env) ex_main ex_code = ''main''"
    using ex_main_calls by simp_all
  have ne: "''main'' \<noteq> ''<unknown>''"
    by simp
  have e0: "entries (calls_map empty_state) k = []" "entries (call_sites empty_state) k = []"
           "file_errors empty_state = []" for k
    by (simp_all add: empty_state_def entries_def)
  note t = call_extraction [OF ty nm ne, of ex_src_a empty_state]
  have 1: "entries (calls_map (scan_node ex_env ex_src_a ex_code empty_state ex_main)) ''main'' =
       [''helper'', ''helper'']"
    using t ex_main_calls by (simp add: e0)
  have 2: "entries (call_sites (scan_node ex_env ex_src_a ex_code empty_state ex_main)) ''main'' =
       [\<lparr>callee = ''helper'', cs_file = ''/proj/src/a.c'', cs_line = 1, cs_col = 30\<rparr>,
        \<lparr>callee = ''helper'', cs_file = ''/proj/src/a.c'', cs_line = 1, cs_col = 40\<rparr>]"
    using t ex_main_calls by (simp add: e0)
  have 3: "entries (calls_map (scan_node ex_env ex_src_a ex_code empty_state ex_main)) ''helper'' = []"
    using t by (simp add: e0)
  have 4: "file_errors (scan_node ex_env ex_src_a ex_code empty_state ex_main) = []"
    using t by (simp add: e0)
  from ty nm 1 2 3 4 show ?thesis by blast
qed

text \<open>
  C6 (ignore-rule boundary). The enumeration is exactly the list of the files of the tree
  whose name ends in \<open>.c\<close> or \<open>.h\<close> and for which no directory between the root and the
  file has a name in the ignore set or starting with a dot, in walk order. Removing every
  such directory from the tree changes neither the enumeration nor the document, so their
  contents are never visited and contribute to no map.
\<close>

theorem ignore_rule_boundary:
  "iter_source_files folder tree =
     map (located folder) (filter (\<lambda>e. enumerated (fst e) (snd e)) (all_files tree))
   \<and> iter_source_files folder (prune tree) = iter_source_files folder tree
   \<and> analyze_folder E folder (prune tree) = analyze_folder E folder tree"
proof -
  have "analyze_folder E folder (prune tree) = analyze_folder E folder tree"
    by (simp add: iter_source_files_prune analyze_folder_def)
  then show ?thesis
    using iter_source_files_enumerated [of folder tree] iter_source_files_prune [of folder tree]
    by blast
qed

text \<open>
  \<open>.git/hook.c\<close> has a valid extension and is in the tree, and is not enumerated; the
  document of the tree without \<open>.git\<close> is the same.
\<close>

theorem ignore_rule_boundary_witness:
  "([''.git''], ''hook.c'') \<in> set (all_files ex_tree)
   \<and> is_source ''hook.c''
   \<and> iter_source_files ex_folder ex_tree = [ex_src_a, ex_src_b, ex_src_h]
   \<and> map (located ex_folder) (filter (\<lambda>e. enumerated (fst e) (snd e)) (all_files ex_tree)) =
       [ex_src_a, ex_src_b, ex_src_h]
   \<and> analyze_folder ex_env ex_folder
        (Dir [(''src'', Dir [] [''a.c'', ''b.c'', ''.cfg.h'', ''notes.txt''])] [''README'']) = ex_doc"
proof -
  note t = ignore_rule_boundary [of ex_folder ex_tree ex_env]
  have 1: "([''.git''], ''hook.c'') \<in> set (all_files ex_tree)"
    by (simp add: ex_all_files)
  have 2: "is_source ''hook.c''"
    by code_simp
  have 3: "iter_source_files ex_folder ex_tree = [ex_src_a, ex_src_b, ex_src_h]"
    using ex_files by simp
  have 4: "map (located ex_folder) (filter (\<lambda>e. enumerated (fst e) (snd e)) (all_files ex_tree)) =
       [ex_src_a, ex_src_b, ex_src_h]"
    using t 3 by simp
  have 5: "analyze_folder ex_env ex_folder
        (Dir [(''src'', Dir [] [''a.c'', ''b.c'', ''.cfg.h'', ''notes.txt''])] [''README'']) = ex_doc"
    using t by (simp add: ex_pruned ex_analysis)
  from 1 2 3 4 5 show ?thesis by blast
qed

text \<open>
  C7 (run statistics). In every document, \<open>num_functions\<close> is the sum of the lengths of
  the lists of \<open>functions\<close> over its keys, \<open>num_unique_function_names\<close> the number of its
  keys, \<open>num_callers\<close> the number of names with at least one recorded call,
  \<open>num_call_sites\<close> the sum of the lengths of the lists of \<open>call_sites\<close>, and
  \<open>num_files_with_errors\<close> the length of \<open>errors\<close>.
\<close>

theorem stats_are_projections:
  "num_functions (doc_stats (analyze_folder E folder tree)) =
     (\<Sum>k\<in>fst ` set (doc_functions (analyze_folder E folder tree)).
        length (entries (doc_functions (analyze_folder E folder tree)) k))
   \<and> num_unique_function_names (doc_stats (analyze_folder E folder tree)) =
       card (fst ` set (doc_functions (analyze_folder E folder tree)))
   \<and> num_callers (doc_stats (analyze_folder E folder tree)) =
       card {k. entries (doc_calls (analyze_folder E folder tree)) k \<noteq> []}
   \<and> num_call_sites (doc_stats (analyze_folder E folder tree)) =
       (\<Sum>k\<in>fst ` set (doc_call_sites (analyze_folder E folder tree)).
          length (entries (doc_call_sites (analyze_folder E folder tree)) k))
   \<and> num_files_with_errors (doc_stats (analyze_folder E folder tree)) =
       length (doc_errors (analyze_folder E folder tree))"
proof -
  let ?d = "analyze_folder E folder tree"
  have df: "distinct (map fst (doc_functions ?d))"
    by (simp add: doc_functions_trace distinct_extend)
  have ds: "distinct (map fst (doc_call_sites ?d))"
    by (simp add: doc_call_sites_trace distinct_extend)
  have dc: "distinct (map fst (doc_calls ?d))"
    by (simp add: doc_calls_trace distinct_extend)
  have nc: "nonempty_lists (doc_calls ?d)"
    by (simp add: doc_calls_trace nonempty_extend nonempty_Nil)
  have 1: "num_functions (doc_stats ?d) = total_len (doc_functions ?d)"
    by (simp add: analyze_folder_def build_result_def)
  have 2: "num_unique_function_names (doc_stats ?d) = length (doc_functions ?d)"
    by (simp add: analyze_folder_def build_result_def)
  have 3: "num_callers (doc_stats ?d) = length (doc_calls ?d)"
    by (simp add: analyze_folder_def build_result_def)
  have 4: "num_call_sites (doc_stats ?d) = total_len (doc_call_sites ?d)"
    by (simp add: analyze_folder_def build_result_def)
  have 5: "num_files_with_errors (doc_stats ?d) = length (doc_errors ?d)"
    by (simp add: analyze_folder_def build_result_def)
  show ?thesis
    by (simp only: 1 2 3 4 5 sum_entries_distinct [OF df] sum_entries_distinct [OF ds]
        card_keys_distinct [OF df] card_keys_distinct [OF dc] keys_with_entries [OF nc])
qed

text \<open>
  The small tree: 3 definitions under 2 names, 1 caller, 2 call sites, 1 error.
\<close>

theorem stats_are_projections_witness:
  "(\<Sum>k\<in>fst ` set (doc_functions (analyze_folder ex_env ex_folder ex_tree)).
        length (entries (doc_functions (analyze_folder ex_env ex_folder ex_tree)) k)) = 3
   \<and> card (fst ` set (doc_functions (analyze_folder ex_env ex_folder ex_tree))) = 2
   \<and> card {k. entries (doc_calls (analyze_folder ex_env ex_folder ex_tree)) k \<noteq> []} = 1
   \<and> (\<Sum>k\<in>fst ` set (doc_call_sites (analyze_folder ex_env ex_folder ex_tree)).
        length (entries (doc_call_sites (analyze_folder ex_env ex_folder ex_tree)) k)) = 2
   \<and> length (doc_errors (analyze_folder ex_env ex_folder ex_tree)) = 1"
proof -
  have st: "doc_stats (analyze_folder ex_env ex_folder ex_tree) =
      \<lparr>num_functions = 3, num_unique_function_names = 2, num_callers = 1,
       num_call_sites = 2, num_files_with_errors = 1\<rparr>"
    by (simp add: ex_analysis ex_doc_def)
  show ?thesis
    using stats_are_projections [of ex_env ex_folder ex_tree] unfolding st by simp
qed



text \<open>
  C9 (no empty entries). Every list stored in \<open>functions\<close>, \<open>calls\<close>, \<open>call_sites\<close> and
  \<open>called_by_sites\<close> is non-empty. The keys of \<open>calls\<close> and of \<open>call_sites\<close> are exactly the
  names of the callers of the recorded call sites, so a named function without calls is not
  a key; the keys of \<open>called_by_sites\<close> are exactly the callees of the recorded call sites,
  so a name that is never called is not a key.
\<close>

theorem no_empty_entries:
  "nonempty_lists (doc_functions (analyze_folder E folder tree))
   \<and> nonempty_lists (doc_calls (analyze_folder E folder tree))
   \<and> nonempty_lists (doc_call_sites (analyze_folder E folder tree))
   \<and> nonempty_lists (doc_called_by_sites (analyze_folder E folder tree))
   \<and> fst ` set (doc_calls (analyze_folder E folder tree)) =
       fst ` set (all_sites E (iter_source_files folder tree))
   \<and> fst ` set (doc_call_sites (analyze_folder E folder tree)) =
       fst ` set (all_sites E (iter_source_files folder tree))
   \<and> fst ` set (doc_called_by_sites (analyze_folder E folder tree)) =
       (\<lambda>e. callee (snd e)) ` set (all_sites E (iter_source_files folder tree))"
proof -
  let ?d = "analyze_folder E folder tree"
  let ?S = "all_sites E (iter_source_files folder tree)"
  have 1: "nonempty_lists (doc_functions ?d)"
    by (simp add: doc_functions_trace nonempty_extend nonempty_Nil)
  have 2: "nonempty_lists (doc_calls ?d)"
    by (simp add: doc_calls_trace nonempty_extend nonempty_Nil)
  have 3: "nonempty_lists (doc_call_sites ?d)"
    by (simp add: doc_call_sites_trace nonempty_extend nonempty_Nil)
  have 4: "nonempty_lists (doc_called_by_sites ?d)"
    by (simp add: doc_called_by_sites_trace nonempty_extend nonempty_Nil)
  have 5: "fst ` set (doc_calls ?d) = fst ` set ?S"
    by (simp add: doc_calls_trace keys_extend_Nil image_image callee_of_def)
  have 6: "fst ` set (doc_call_sites ?d) = fst ` set ?S"
    by (simp add: doc_call_sites_trace keys_extend_Nil)
  have "set (flat (doc_call_sites ?d)) = set ?S"
    by (simp add: doc_call_sites_trace set_flat_extend_Nil)
  then have 7: "fst ` set (doc_called_by_sites ?d) = (\<lambda>e. callee (snd e)) ` set ?S"
    by (simp add: doc_called_by_sites_trace keys_extend_Nil image_image inv_entry_def)
  from 1 2 3 4 5 6 7 show ?thesis by blast
qed

text \<open>
  In the small tree the only caller is \<open>main\<close> and the only callee is \<open>helper\<close>; \<open>helper\<close>
  is defined, makes no call and is no key of \<open>calls\<close>.
\<close>

theorem no_empty_entries_witness:
  "nonempty_lists (doc_called_by_sites (analyze_folder ex_env ex_folder ex_tree))
   \<and> fst ` set (all_sites ex_env (iter_source_files ex_folder ex_tree)) = {''main''}
   \<and> (\<lambda>e. callee (snd e)) ` set (all_sites ex_env (iter_source_files ex_folder ex_tree)) = {''helper''}
   \<and> entries (doc_functions (analyze_folder ex_env ex_folder ex_tree)) ''helper'' \<noteq> []
   \<and> ''helper'' \<notin> fst ` set (doc_calls (analyze_folder ex_env ex_folder ex_tree))"
proof -
  note t = no_empty_entries [of ex_env ex_folder ex_tree]
  have c: "fst ` set (doc_calls (analyze_folder ex_env ex_folder ex_tree)) = {''main''}"
    and b: "fst ` set (doc_called_by_sites (analyze_folder ex_env ex_folder ex_tree)) = {''helper''}"
    and f: "entries (doc_functions (analyze_folder ex_env ex_folder ex_tree)) ''helper'' \<noteq> []"
    by (simp_all add: ex_analysis ex_doc_def entries_def)
  have h: "''helper'' \<notin> fst ` set (doc_calls (analyze_folder ex_env ex_folder ex_tree))"
    unfolding c by simp
  from t c b f h show ?thesis
    by (metis (no_types, lifting))
qed

text \<open>
  C10 (hidden files are indexed). A file whose own name starts with a dot and ends in
  \<open>.c\<close> or \<open>.h\<close>, below directories none of which is ignored or hidden, is enumerated;
  the definitions and call sites extracted from it are entries of \<open>functions\<close>, \<open>calls\<close>,
  \<open>call_sites\<close> and (inverted) \<open>called_by_sites\<close>.
\<close>

theorem hidden_files_are_indexed:
  assumes "(ds, fn) \<in> set (all_files tree)"
    and "\<forall>d\<in>set ds. d \<notin> set ignore_dirs \<and> \<not> startswith d ''.''"
    and "startswith fn ''.''"
    and "endswith fn ''.c'' \<or> endswith fn ''.h''"
  shows "folder @ ds @ [fn] \<in> set (iter_source_files folder tree)
       \<and> set (file_defs E (folder @ ds @ [fn])) \<subseteq>
           set (flat (doc_functions (analyze_folder E folder tree)))
       \<and> set (map callee_of (file_sites E (folder @ ds @ [fn]))) \<subseteq>
           set (flat (doc_calls (analyze_folder E folder tree)))
       \<and> set (file_sites E (folder @ ds @ [fn])) \<subseteq>
           set (flat (doc_call_sites (analyze_folder E folder tree)))
       \<and> set (map inv_entry (file_sites E (folder @ ds @ [fn]))) \<subseteq>
           set (flat (doc_called_by_sites (analyze_folder E folder tree)))"
proof -
  let ?p = "folder @ ds @ [fn]"
  let ?d = "analyze_folder E folder tree"
  have "enumerated ds fn"
    using assms by (simp add: enumerated_def)
  with assms(1) have "(ds, fn) \<in> set (filter (\<lambda>e. enumerated (fst e) (snd e)) (all_files tree))"
    by simp
  then have "located folder (ds, fn) \<in> set (iter_source_files folder tree)"
    by (simp add: iter_source_files_enumerated del: set_filter)
  then have mem: "?p \<in> set (iter_source_files folder tree)"
    by (simp add: located_def)
  have 1: "set (file_defs E ?p) \<subseteq> set (flat (doc_functions ?d))"
    using mem by (auto simp: doc_functions_trace set_flat_extend_Nil all_defs_def)
  have s: "set (file_sites E ?p) \<subseteq> set (all_sites E (iter_source_files folder tree))"
    using mem by (auto simp: all_sites_def)
  have 2: "set (map callee_of (file_sites E ?p)) \<subseteq> set (flat (doc_calls ?d))"
    using s by (auto simp: doc_calls_trace set_flat_extend_Nil)
  have 3: "set (file_sites E ?p) \<subseteq> set (flat (doc_call_sites ?d))"
    using s by (simp add: doc_call_sites_trace set_flat_extend_Nil)
  have 4: "set (map inv_entry (file_sites E ?p)) \<subseteq> set (flat (doc_called_by_sites ?d))"
    using 3 by (auto simp: doc_called_by_sites_trace set_flat_extend_Nil)
  from mem 1 2 3 4 show ?thesis by blast
qed

text \<open>
  \<open>src/.cfg.h\<close> of the small tree is enumerated and its definition of \<open>helper\<close> is in
  \<open>functions\<close>.
\<close>

theorem hidden_files_are_indexed_witness:
  "([''src''], ''.cfg.h'') \<in> set (all_files ex_tree)
   \<and> ''src'' \<notin> set ignore_dirs \<and> \<not> startswith ''src'' ''.''
   \<and> startswith ''.cfg.h'' ''.'' \<and> endswith ''.cfg.h'' ''.h''
   \<and> ex_src_h \<in> set (iter_source_files ex_folder ex_tree)
   \<and> (''helper'', \<lparr>fd_file = ''/proj/src/.cfg.h'', start_line = 1, end_line = 1\<rparr>)
       \<in> set (flat (doc_functions (analyze_folder ex_env ex_folder ex_tree)))"
proof -
  have h1: "([''src''], ''.cfg.h'') \<in> set (all_files ex_tree)"
    and h2: "\<forall>d\<in>set [''src'']. d \<notin> set ignore_dirs \<and> \<not> startswith d ''.''"
    and h3: "startswith ''.cfg.h'' ''.''"
    and h4: "endswith ''.cfg.h'' ''.c'' \<or> endswith ''.cfg.h'' ''.h''"
    using ex_hidden by simp_all
  note t = hidden_files_are_indexed [OF h1 h2 h3 h4, of ex_folder ex_env]
  have p: "ex_folder @ [''src''] @ [''.cfg.h''] = ex_src_h"
    using ex_hidden by blast
  have d: "file_defs ex_env ex_src_h =
       [(''helper'', \<lparr>fd_file = ''/proj/src/.cfg.h'', start_line = 1, end_line = 1\<rparr>)]"
    using ex_hidden by blast
  from t have "ex_src_h \<in> set (iter_source_files ex_folder ex_tree)
     \<and> set (file_defs ex_env ex_src_h) \<subseteq> set (flat (doc_functions (analyze_folder ex_env ex_folder ex_tree)))"
    unfolding p by blast
  then have "ex_src_h \<in> set (iter_source_files ex_folder ex_tree)
     \<and> (''helper'', \<lparr>fd_file = ''/proj/src/.cfg.h'', start_line = 1, end_line = 1\<rparr>)
       \<in> set (flat (doc_functions (analyze_folder ex_env ex_folder ex_tree)))"
    unfolding d by simp
  with ex_hidden show ?thesis by blast
qed

end
